theory Spec2Isabelle
  imports
    Main
    "HOL-Library.Char_ord"
    "HOL-Library.List_Lexorder"
    "HOL-Library.Sublist"
    "HOL-Library.Multiset"
begin

section \<open>Data model\<close>

text \<open>
  Modelled from the spec: the \<open>Character\<close> interface, which the component imports from
  \<open>@/interfaces/Character\<close>. The component reads the fields \<open>id\<close>, \<open>name\<close>, \<open>status\<close>
  and \<open>image\<close>; the spec gives an integer identifier, a display name, a status and an
  image URI. Two field names carry a prime because \<open>id\<close> and \<open>image\<close> are constants of HOL.

  A JavaScript string is a sequence of code units compared unit by unit. It is modelled
  as a \<open>char list\<close> with the order of \<open>Char_ord\<close> and \<open>List_Lexorder\<close> (lexicographic
  on the codes), which covers the code units below 256.
\<close>

record Character =
  id' :: int
  name :: string
  status :: string
  image' :: string

datatype SortOrder = asc | desc

section \<open>JavaScript primitives used by the component\<close>

text \<open>
  \<open>String.prototype.toLowerCase\<close> on the code units below 256: the letters \<open>A\<close> to \<open>Z\<close>
  and the capital letters of the Latin-1 block (192 to 222 without the multiplication
  sign 215) move up by 32; every other unit is kept.
\<close>

definition toLowerCase_unit :: "char \<Rightarrow> char" where
  "toLowerCase_unit c =
     (let n = (of_char c :: nat)
      in if (65 \<le> n \<and> n \<le> 90) \<or> (192 \<le> n \<and> n \<le> 222 \<and> n \<noteq> 215)
         then char_of (n + 32) else c)"

definition toLowerCase :: "string \<Rightarrow> string" where
  "toLowerCase s = map toLowerCase_unit s"

text \<open>
  \<open>String.prototype.includes\<close>: the search string is found when it starts at some
  position of the receiver.
\<close>

fun String_includes :: "string \<Rightarrow> string \<Rightarrow> bool" where
  "String_includes [] t = (t = [])"
| "String_includes (c # s) t = (prefix t (c # s) \<or> String_includes s t)"

text \<open>
  Arrays are objects: a variable holds a reference, and two variables may hold the same
  one. The store is the list of all arrays allocated so far and a reference is an index
  into it. \<open>Array.prototype.filter\<close> allocates a fresh array; \<open>Array.prototype.sort\<close>
  sorts the array it is called on in place and returns the same reference.

  ECMAScript requires \<open>sort\<close> to be stable, so for a consistent comparison function the
  result is the one stable arrangement; \<open>sortBy\<close> computes it by stable insertion.
\<close>

type_synonym ref = nat

type_synonym 'a store = "'a list list"

fun insertBy :: "('a \<Rightarrow> 'a \<Rightarrow> int) \<Rightarrow> 'a \<Rightarrow> 'a list \<Rightarrow> 'a list" where
  "insertBy cmp x [] = [x]"
| "insertBy cmp x (y # ys) = (if cmp x y \<le> 0 then x # y # ys else y # insertBy cmp x ys)"

definition sortBy :: "('a \<Rightarrow> 'a \<Rightarrow> int) \<Rightarrow> 'a list \<Rightarrow> 'a list" where
  "sortBy cmp xs = foldr (insertBy cmp) xs []"

definition Array_filter :: "('a \<Rightarrow> bool) \<Rightarrow> ref \<Rightarrow> 'a store \<Rightarrow> ref \<times> 'a store" where
  "Array_filter p r h = (length h, h @ [filter p (h ! r)])"

definition Array_sort :: "('a \<Rightarrow> 'a \<Rightarrow> int) \<Rightarrow> ref \<Rightarrow> 'a store \<Rightarrow> ref \<times> 'a store" where
  "Array_sort cmp r h = (r, h[r := sortBy cmp (h ! r)])"

section \<open>The filter and sort pipeline\<close>

text \<open>The comparison function handed to \<open>sort\<close> (lines 85 to 89).\<close>

definition compareNames :: "SortOrder \<Rightarrow> Character \<Rightarrow> Character \<Rightarrow> int" where
  "compareNames sortOrder a b =
     (if name a < name b then (if sortOrder = asc then - 1 else 1)
      else if name a > name b then (if sortOrder = asc then 1 else - 1)
      else 0)"

text \<open>
  \<open>getFilteredAndSortedCharacters\<close> (lines 72 to 92). \<open>characters\<close> is the reference
  received as a prop; \<open>filtered\<close> starts as the same reference and is replaced by a
  fresh array only when a filter step runs. The result is the reference handed to
  \<open>setFilteredCharacters\<close>, together with the store after the call.
\<close>

definition getFilteredAndSortedCharacters ::
  "ref \<Rightarrow> string \<Rightarrow> string \<Rightarrow> SortOrder \<Rightarrow> Character store \<Rightarrow> ref \<times> Character store" where
  "getFilteredAndSortedCharacters characters filter' searchTerm sortOrder h =
     (let (filtered, h) =
            (if filter' \<noteq> ''All''
             then Array_filter (\<lambda>character. status character = filter') characters h
             else (characters, h));
          (filtered, h) =
            (if searchTerm \<noteq> []
             then Array_filter
                    (\<lambda>character. String_includes (toLowerCase (name character))
                                                 (toLowerCase searchTerm))
                    filtered h
             else (filtered, h))
      in Array_sort (compareNames sortOrder) filtered h)"

text \<open>The derived view: the contents of the array the pipeline returns.\<close>

definition derivedView ::
  "ref \<Rightarrow> string \<Rightarrow> string \<Rightarrow> SortOrder \<Rightarrow> Character store \<Rightarrow> Character list" where
  "derivedView characters filter' searchTerm sortOrder h =
     (let (filtered, h') = getFilteredAndSortedCharacters characters filter' searchTerm sortOrder h
      in h' ! filtered)"

text \<open>
  The survivors of the two filter steps, written from the specification: a record is
  kept when the status filter is the sentinel or equals its status, and when the search
  term is empty or its lower-cased form occurs inside the lower-cased name.
\<close>

definition survivors :: "string \<Rightarrow> string \<Rightarrow> Character list \<Rightarrow> Character list" where
  "survivors filter' searchTerm cs =
     filter (\<lambda>c. (filter' = ''All'' \<or> status c = filter') \<and>
                 (searchTerm = [] \<or> sublist (toLowerCase searchTerm) (toLowerCase (name c)))) cs"

section \<open>JavaScript \<open>Map\<close> and the pagination merge\<close>

text \<open>
  A JavaScript \<open>Map\<close> remembers the order in which its keys were first inserted;
  \<open>set\<close> on a key that is present replaces the value and leaves the key where it is.
  It is modelled as an association list in insertion order. \<open>new Map(entries)\<close> calls
  \<open>set\<close> for every entry from left to right, and \<open>values()\<close> lists the values in key
  order.
\<close>

fun Map_set :: "'k \<Rightarrow> 'v \<Rightarrow> ('k \<times> 'v) list \<Rightarrow> ('k \<times> 'v) list" where
  "Map_set k v [] = [(k, v)]"
| "Map_set k v ((k', v') # m) = (if k' = k then (k', v) # m else (k', v') # Map_set k v m)"

definition Map_new :: "('k \<times> 'v) list \<Rightarrow> ('k \<times> 'v) list" where
  "Map_new entries = foldl (\<lambda>m (k, v). Map_set k v m) [] entries"

definition Map_values :: "('k \<times> 'v) list \<Rightarrow> 'v list" where
  "Map_values m = map snd m"

text \<open>
  Line 56: \<open>Array.from(new Map(newCharacters.map(character => [character.id, character])).values())\<close>.
\<close>

definition uniqueCharacters :: "Character list \<Rightarrow> Character list" where
  "uniqueCharacters newCharacters =
     Map_values (Map_new (map (\<lambda>character. (id' character, character)) newCharacters))"

text \<open>
  Two notions used to describe the merge: the identifiers of a list in the order of
  their first occurrence, and the last record of a list that carries a given identifier.
\<close>

definition firstOccurrences :: "'a list \<Rightarrow> 'a list" where
  "firstOccurrences xs = rev (remdups (rev xs))"

definition lastWithId :: "Character list \<Rightarrow> int \<Rightarrow> Character" where
  "lastWithId cs i = last (filter (\<lambda>c. id' c = i) cs)"

section \<open>The component\<close>

text \<open>
  What the awaited part of \<open>loadMoreCharacters\<close> delivers: either the \<open>results\<close> array
  of the parsed body, or an exception (the request is rejected, the body does not parse,
  or the body has no \<open>results\<close> array to take the length of).
\<close>

datatype FetchOutcome = Failed | Results "Character list"

text \<open>
  A call of \<open>loadMoreCharacters\<close> suspended at its \<open>await\<close>: the page number it put in
  the URL and the reference to the \<open>allCharacters\<close> array of the render it was created
  in, which its continuation still refers to.
\<close>

record Request =
  req_page :: int
  req_allCharacters :: ref

text \<open>
  A confirmation dialog on screen. Its "Excluir" button holds a closure over the
  \<open>characters\<close> array (a reference) and the \<open>id\<close> argument of the \<open>handleDelete\<close> call
  that opened it; \<open>None\<close> stands for \<open>undefined\<close>, which \<open>selectedCharacter?.id\<close> yields
  when nothing is selected. The "Cancelar" button has no handler.
\<close>

record Alert =
  alert_characters :: ref
  alert_id :: "int option"

datatype Button = Cancelar | Excluir

text \<open>
  The world of a mounted component: the props, the collection held by the data hook and
  the eight state cells of the component (lines 35 to 43), then the memory that holds
  every array, the fetches and dialogs that are outstanding, and the lines written to
  the console. The three collections are references into the memory.
\<close>

text \<open>
  Modelled from the spec: the two setters the component receives and the hook that
  provides one of them, none of which is defined in the component's file. The prop
  \<open>setCharacters\<close> replaces the collection owned by the parent, which comes back as the
  prop \<open>characters\<close>; the hook's \<open>setCharacters\<close>, bound to \<open>updateCharacters\<close>, replaces
  the hook's collection, which comes back as \<open>allCharacters\<close>. Both hand over the array
  they are given, not a copy of it.
\<close>

record World =
  searchTerm :: string
  filter' :: string
  sortOrder :: SortOrder
  characters :: ref
  allCharacters :: ref
  filteredCharacters :: ref
  selectedCharacter :: "Character option"
  isModalVisible :: bool
  isEditModalVisible :: bool
  page :: int
  hasMore :: bool
  loadingMore :: bool
  store :: "Character store"
  requests :: "Request list"
  alerts :: "Alert list"
  console :: "string list"

text \<open>
  The first render over a memory \<open>h\<close>: the props and the hook's collection as given,
  every state cell at its \<open>useState\<close> initial value; \<open>useState([])\<close> creates the empty
  array of the view.
\<close>

definition initial ::
  "string \<Rightarrow> string \<Rightarrow> SortOrder \<Rightarrow> ref \<Rightarrow> ref \<Rightarrow> Character store \<Rightarrow> World" where
  "initial st f so cs acs h =
     \<lparr>searchTerm = st, filter' = f, sortOrder = so, characters = cs, allCharacters = acs,
      filteredCharacters = length h, selectedCharacter = None, isModalVisible = False,
      isEditModalVisible = False, page = 1, hasMore = True, loadingMore = False,
      store = h @ [[]], requests = [], alerts = [], console = []\<rparr>"

text \<open>
  A handler is a closure made by a render. The props, the hook's collection and the
  state cells it mentions are the constants of that render, whatever has been set since;
  the setters it calls, and the arrays it reads through a reference, act on the world as
  it is when the handler runs. A handler that reads such a constant therefore takes two
  worlds: \<open>r\<close>, the world the render saw, of which only props, hook collection and state
  cells are read, and \<open>w\<close>, the world it runs in.
\<close>

text \<open>
  \<open>loadMoreCharacters\<close> up to its first \<open>await\<close> (lines 46 to 50): the guard on the
  render's \<open>loadingMore\<close> and \<open>hasMore\<close>, the in-flight flag, and the request for the
  render's \<open>page\<close>.
\<close>

definition loadMoreCharacters :: "World \<Rightarrow> World \<Rightarrow> World" where
  "loadMoreCharacters r w =
     (if loadingMore r \<or> \<not> hasMore r then w
      else w\<lparr>loadingMore := True,
             requests := requests w @ [\<lparr>req_page = page r, req_allCharacters = allCharacters r\<rparr>]\<rparr>)"

text \<open>
  The rest of \<open>loadMoreCharacters\<close> (lines 51 to 67), run when the fetch of \<open>req\<close>
  settles. The spread reads the captured array as it is by then; the merged array is
  new, and the hook and the view receive the same one. \<open>setPage\<close> is given a function
  and so counts from the current page; \<open>finally\<close> runs after either branch.
\<close>

definition loadMoreCharacters_resume :: "Request \<Rightarrow> FetchOutcome \<Rightarrow> World \<Rightarrow> World" where
  "loadMoreCharacters_resume req outcome w =
     (let w' =
        (case outcome of
           Results results \<Rightarrow>
             if length results > 0 then
               (let newCharacters = store w ! req_allCharacters req @ results;
                    unique = uniqueCharacters newCharacters
                in w\<lparr>store := store w @ [unique],
                      allCharacters := length (store w),
                      filteredCharacters := length (store w),
                      page := page w + 1\<rparr>)
             else w\<lparr>hasMore := False\<rparr>
         | Failed \<Rightarrow> w\<lparr>console := console w @ [''Erro ao carregar mais personagens:'']\<rparr>)
      in w'\<lparr>loadingMore := False\<rparr>)"

text \<open>The oldest outstanding fetch settles.\<close>

definition fetchSettled :: "FetchOutcome \<Rightarrow> World \<Rightarrow> World" where
  "fetchSettled outcome w =
     (case requests w of
        [] \<Rightarrow> w
      | req # rest \<Rightarrow> loadMoreCharacters_resume req outcome (w\<lparr>requests := rest\<rparr>))"

text \<open>
  The effect of lines 71 to 95: the pipeline runs on the render's props, in the memory
  of the world, and the view becomes the array it returns.
\<close>

definition useEffect_filter :: "World \<Rightarrow> World \<Rightarrow> World" where
  "useEffect_filter r w =
     (let (filtered, h) =
            getFilteredAndSortedCharacters (characters r) (filter' r) (searchTerm r) (sortOrder r)
              (store w)
      in w\<lparr>store := h, filteredCharacters := filtered\<rparr>)"

definition openModal :: "Character \<Rightarrow> World \<Rightarrow> World" where
  "openModal character w = w\<lparr>selectedCharacter := Some character, isModalVisible := True\<rparr>"

definition closeModal :: "World \<Rightarrow> World" where
  "closeModal w = w\<lparr>isModalVisible := False, selectedCharacter := None\<rparr>"

text \<open>\<open>handleDelete\<close> (lines 109 to 131): the dialog is shown, then the detail overlay is
  hidden, whatever the answer will be.\<close>

definition handleDelete :: "World \<Rightarrow> int option \<Rightarrow> World \<Rightarrow> World" where
  "handleDelete r i w =
     w\<lparr>alerts := alerts w @ [\<lparr>alert_characters = characters r, alert_id = i\<rparr>],
       isModalVisible := False\<rparr>"

text \<open>
  A button of the oldest dialog is pressed (lines 114 to 127). "Excluir" filters the
  captured array as it is at that moment into a new array and hands it to the parent.
\<close>

definition Alert_press :: "Button \<Rightarrow> World \<Rightarrow> World" where
  "Alert_press b w =
     (case alerts w of
        [] \<Rightarrow> w
      | a # rest \<Rightarrow>
          (case b of
             Cancelar \<Rightarrow> w\<lparr>alerts := rest\<rparr>
           | Excluir \<Rightarrow>
               w\<lparr>alerts := rest,
                 store := store w @
                   [filter (\<lambda>character. Some (id' character) \<noteq> alert_id a)
                      (store w ! alert_characters a)],
                 characters := length (store w)\<rparr>))"

definition handleEdit :: "Character \<Rightarrow> World \<Rightarrow> World" where
  "handleEdit character w =
     w\<lparr>selectedCharacter := Some character, isEditModalVisible := True, isModalVisible := False\<rparr>"

text \<open>\<open>saveEdit\<close> (lines 141 to 147): \<open>map\<close> makes a new array from the render's
  \<open>characters\<close> array.\<close>

definition saveEdit :: "World \<Rightarrow> Character \<Rightarrow> World \<Rightarrow> World" where
  "saveEdit r updatedCharacter w =
     w\<lparr>store := store w @
         [map (\<lambda>char. if id' char = id' updatedCharacter then updatedCharacter else char)
            (store w ! characters r)],
       characters := length (store w),
       isEditModalVisible := False\<rparr>"

text \<open>The \<open>onClose\<close> handler of the edit overlay (line 195).\<close>

definition editModal_onClose :: "World \<Rightarrow> World" where
  "editModal_onClose w = w\<lparr>isEditModalVisible := False\<rparr>"

text \<open>
  Everything that can happen to a mounted component: the list nears its end, a fetch
  settles, a card is pressed, the buttons of the overlays and of the dialog, the effect
  runs, the parent renders with new props, the hook publishes another collection, and
  code outside the component creates an array.
\<close>

datatype Event =
    EndReached
  | FetchSettled FetchOutcome
  | CardPressed Character
  | ModalClose
  | ModalDelete
  | ModalEdit Character
  | AlertPressed Button
  | EditSave Character
  | EditClose
  | EffectRun
  | PropsChanged string string SortOrder ref
  | HookChanged ref
  | ArrayCreated "Character list"

text \<open>One event, handled by the closures of the render that saw \<open>r\<close>, in the world \<open>w\<close>.\<close>

fun handle :: "Event \<Rightarrow> World \<Rightarrow> World \<Rightarrow> World" where
  "handle EndReached r w = loadMoreCharacters r w"
| "handle (FetchSettled outcome) r w = fetchSettled outcome w"
| "handle (CardPressed c) r w = openModal c w"
| "handle ModalClose r w = closeModal w"
| "handle ModalDelete r w = handleDelete r (map_option id' (selectedCharacter r)) w"
| "handle (ModalEdit c) r w = handleEdit c w"
| "handle (AlertPressed b) r w = Alert_press b w"
| "handle (EditSave c) r w = saveEdit r c w"
| "handle EditClose r w = editModal_onClose w"
| "handle EffectRun r w = useEffect_filter r w"
| "handle (PropsChanged st f so cs) r w =
     w\<lparr>searchTerm := st, filter' := f, sortOrder := so, characters := cs\<rparr>"
| "handle (HookChanged acs) r w = w\<lparr>allCharacters := acs\<rparr>"
| "handle (ArrayCreated cs) r w = w\<lparr>store := store w @ [cs]\<rparr>"

text \<open>
  The component renders again once the handlers that were called have returned. The
  events that arrive before it does are all handled by the closures of the same render,
  the one that saw the world as it was when the first of them arrived: that is a
  \<open>tick\<close>. A \<open>step\<close> is a tick of a single event, handled by the closures of a render
  that saw the current world.
\<close>

definition tick :: "Event list \<Rightarrow> World \<Rightarrow> World" where
  "tick es w = fold (\<lambda>e. handle e w) es w"

definition step :: "Event \<Rightarrow> World \<Rightarrow> World" where
  "step e w = handle e w w"

definition run :: "Event list \<Rightarrow> World \<Rightarrow> World" where
  "run es w = fold step es w"

definition runTicks :: "Event list list \<Rightarrow> World \<Rightarrow> World" where
  "runTicks ts w = fold tick ts w"

text \<open>
  Modelled from the spec: the three states of the overlay state machine of section 4.3,
  read off the selection and the two visibility flags. \<open>Idle\<close> is no selection and no
  overlay; \<open>DetailOpen\<close> is a selection with the detail overlay visible; \<open>EditOpen\<close> is a
  selection with the edit overlay visible and the detail overlay hidden.
\<close>

definition Idle :: "World \<Rightarrow> bool" where
  "Idle w \<longleftrightarrow> selectedCharacter w = None \<and> \<not> isModalVisible w \<and> \<not> isEditModalVisible w"

definition DetailOpen :: "World \<Rightarrow> bool" where
  "DetailOpen w \<longleftrightarrow> selectedCharacter w \<noteq> None \<and> isModalVisible w \<and> \<not> isEditModalVisible w"

definition EditOpen :: "World \<Rightarrow> bool" where
  "EditOpen w \<longleftrightarrow> selectedCharacter w \<noteq> None \<and> isEditModalVisible w \<and> \<not> isModalVisible w"

section \<open>Example data\<close>

definition rick :: Character where
  "rick = \<lparr>id' = 1, name = ''Rick Sanchez'', status = ''Alive'', image' = ''rick.jpeg''\<rparr>"

definition morty :: Character where
  "morty = \<lparr>id' = 2, name = ''Morty Smith'', status = ''Alive'', image' = ''morty.jpeg''\<rparr>"

definition beth :: Character where
  "beth = \<lparr>id' = 4, name = ''Beth Smith'', status = ''Dead'', image' = ''beth.jpeg''\<rparr>"

definition birdperson :: Character where
  "birdperson = \<lparr>id' = 5, name = ''Birdperson'', status = ''Dead'', image' = ''bird.jpeg''\<rparr>"

text \<open>A record with Rick's identifier and other contents, as a later page or an edit
  would deliver it.\<close>

definition rick_edited :: Character where
  "rick_edited = \<lparr>id' = 1, name = ''Rick C-137'', status = ''unknown'', image' = ''rick.jpeg''\<rparr>"

text \<open>
  A freshly mounted component: the parent's array, at reference 0, and the hook's array,
  at reference 1, both hold Rick and Morty.
\<close>

definition exampleWorld :: World where
  "exampleWorld = initial [] ''All'' asc 0 1 [[rick, morty], [rick, morty]]"

section \<open>Properties of the primitives\<close>

lemma String_includes_sublist: "String_includes s t \<longleftrightarrow> sublist t s"
  by (induction s) (simp_all add: sublist_Cons_right)

lemma mset_insertBy: "mset (insertBy cmp x xs) = add_mset x (mset xs)"
  by (induction xs) simp_all

lemma mset_sortBy: "mset (sortBy cmp xs) = mset xs"
  by (induction xs) (simp_all add: sortBy_def mset_insertBy)

lemma set_sortBy: "set (sortBy cmp xs) = set xs"
  using mset_sortBy [of cmp xs] by (metis set_mset_mset)

lemma length_sortBy: "length (sortBy cmp xs) = length xs"
  using mset_sortBy [of cmp xs] by (metis size_mset)

lemma sorted_insertBy:
  assumes total: "\<And>a b. cmp a b \<le> 0 \<or> cmp b a \<le> 0"
    and trans: "\<And>a b c. cmp a b \<le> 0 \<Longrightarrow> cmp b c \<le> 0 \<Longrightarrow> cmp a c \<le> 0"
    and sorted: "sorted_wrt (\<lambda>a b. cmp a b \<le> 0) xs"
  shows "sorted_wrt (\<lambda>a b. cmp a b \<le> 0) (insertBy cmp x xs)"
  using sorted
proof (induction xs)
  case Nil
  then show ?case by simp
next
  case (Cons y ys)
  show ?case
  proof (cases "cmp x y \<le> 0")
    case True
    with Cons.prems show ?thesis by (auto intro: trans)
  next
    case False
    then have yx: "cmp y x \<le> 0" using total [of x y] by simp
    have "set (insertBy cmp x ys) = insert x (set ys)"
      using mset_insertBy [of cmp x ys] by (metis set_mset_add_mset_insert set_mset_mset)
    with False yx Cons show ?thesis by auto
  qed
qed

lemma sorted_sortBy:
  assumes "\<And>a b. cmp a b \<le> 0 \<or> cmp b a \<le> 0"
    and "\<And>a b c. cmp a b \<le> 0 \<Longrightarrow> cmp b c \<le> 0 \<Longrightarrow> cmp a c \<le> 0"
  shows "sorted_wrt (\<lambda>a b. cmp a b \<le> 0) (sortBy cmp xs)"
proof (induction xs)
  case Nil
  then show ?case by (simp add: sortBy_def)
next
  case (Cons x xs)
  have "sortBy cmp (x # xs) = insertBy cmp x (sortBy cmp xs)"
    by (simp add: sortBy_def)
  with Cons sorted_insertBy [OF assms] show ?case by simp
qed

lemma sortBy_sorted_id:
  "sorted_wrt (\<lambda>a b. cmp a b \<le> 0) xs \<Longrightarrow> sortBy cmp xs = xs"
proof (induction xs)
  case Nil
  then show ?case by (simp add: sortBy_def)
next
  case (Cons x xs)
  then have "sortBy cmp (x # xs) = insertBy cmp x xs"
    by (simp add: sortBy_def)
  with Cons.prems show ?case by (cases xs) simp_all
qed

lemma compareNames_asc: "compareNames asc a b \<le> 0 \<longleftrightarrow> name a \<le> name b"
  by (auto simp: compareNames_def)

lemma compareNames_desc: "compareNames desc a b \<le> 0 \<longleftrightarrow> name b \<le> name a"
  by (auto simp: compareNames_def)

lemma compareNames_total: "compareNames d a b \<le> 0 \<or> compareNames d b a \<le> 0"
  by (cases d) (auto simp: compareNames_asc compareNames_desc)

lemma compareNames_trans:
  "compareNames d a b \<le> 0 \<Longrightarrow> compareNames d b c \<le> 0 \<Longrightarrow> compareNames d a c \<le> 0"
  by (cases d) (auto simp: compareNames_asc compareNames_desc)

lemma sorted_sortBy_compareNames:
  "sorted_wrt (\<lambda>a b. compareNames d a b \<le> 0) (sortBy (compareNames d) xs)"
  by (rule sorted_sortBy) (rule compareNames_total, erule compareNames_trans, assumption)

section \<open>The pipeline on values\<close>

text \<open>
  What the returned array holds, and where it lives: the source array itself when no
  filter step ran, a fresh array otherwise.
\<close>

lemma derivedView_eq:
  assumes "r < length h"
  shows "derivedView r f s d h =
           sortBy (compareNames d) (survivors f s (h ! r))"
  using assms
  by (auto simp: derivedView_def getFilteredAndSortedCharacters_def Array_filter_def
      Array_sort_def survivors_def String_includes_sublist nth_append
      intro!: arg_cong [where f = "sortBy (compareNames d)"] filter_cong)

lemma pipeline_ref_valid:
  assumes "r < length h"
  shows "fst (getFilteredAndSortedCharacters r f s d h)
           < length (snd (getFilteredAndSortedCharacters r f s d h))"
  using assms
  by (auto simp: getFilteredAndSortedCharacters_def Array_filter_def Array_sort_def)

lemma survivors_idem:
  "set ys = set (survivors f s xs) \<Longrightarrow> survivors f s ys = ys"
  by (auto simp: survivors_def filter_id_conv)

lemma source_kept_when_filtered:
  assumes "r < length h" and "f \<noteq> ''All'' \<or> s \<noteq> []"
  shows "snd (getFilteredAndSortedCharacters r f s d h) ! r = h ! r"
  using assms
  by (auto simp: getFilteredAndSortedCharacters_def Array_filter_def Array_sort_def nth_append)

text \<open>The sort is stable: records with the same name stay in the order they had.\<close>

lemma filter_name_insertBy:
  "filter (\<lambda>c. name c = n) (insertBy (compareNames d) x xs) = filter (\<lambda>c. name c = n) (x # xs)"
  by (induction xs) (auto simp: compareNames_def split: if_splits)

lemma filter_name_sortBy:
  "filter (\<lambda>c. name c = n) (sortBy (compareNames d) xs) = filter (\<lambda>c. name c = n) xs"
proof (induction xs)
  case Nil
  then show ?case by (simp add: sortBy_def)
next
  case (Cons x xs)
  have "sortBy (compareNames d) (x # xs) = insertBy (compareNames d) x (sortBy (compareNames d) xs)"
    by (simp add: sortBy_def)
  with Cons show ?case by (simp add: filter_name_insertBy)
qed

subsection \<open>Scenarios of the specification\<close>

lemma scenario_search_case_insensitive:
  "derivedView 0 ''All'' ''rick'' asc [[rick, morty]] = [rick]"
  "derivedView 0 ''All'' ''RICK'' asc [[rick, morty]] = [rick]"
  "derivedView 0 ''All'' ''Sanc'' asc [[rick, morty]] = [rick]"
  by code_simp+

lemma scenario_single_record:
  "derivedView 0 ''All'' [] asc [[morty]] = [morty]"
  by code_simp

lemma scenario_descending:
  "derivedView 0 ''All'' [] desc [[rick, beth]] = [rick, beth]"
  "derivedView 0 ''All'' [] desc [[beth, rick]] = [rick, beth]"
  by code_simp+

lemma example_survivors:
  "survivors ''Alive'' ''S'' [rick, morty, beth, birdperson] = [rick, morty]"
  by code_simp

lemma example_pipeline:
  "getFilteredAndSortedCharacters 0 ''Alive'' ''S'' asc [[rick, morty, beth, birdperson]] =
     (2, [[rick, morty, beth, birdperson], [rick, morty], [morty, rick]])"
  by code_simp

subsection \<open>Claims about the pipeline\<close>

text \<open>
  C1. For every collection, status filter, search term and sort direction, the derived
  view is the survivors of the two filter steps sorted by name: it holds exactly the
  records of the collection that pass the status filter (when it is not "All") and whose
  lower-cased name contains the lower-cased search term (when the term is not empty), it
  is ordered by name, ascending or descending as the direction says, and records with
  equal names stay in the order of the collection.
\<close>

theorem view_is_sorted_survivors:
  assumes "r < length h"
  shows "mset (derivedView r f s d h) = mset (survivors f s (h ! r)) \<and>
         (d = asc \<longrightarrow> sorted_wrt (\<lambda>a b. name a \<le> name b) (derivedView r f s d h)) \<and>
         (d = desc \<longrightarrow> sorted_wrt (\<lambda>a b. name b \<le> name a) (derivedView r f s d h)) \<and>
         (\<forall>n. filter (\<lambda>c. name c = n) (derivedView r f s d h) =
              filter (\<lambda>c. name c = n) (survivors f s (h ! r)))"
proof -
  have v: "derivedView r f s d h = sortBy (compareNames d) (survivors f s (h ! r))"
    using assms by (rule derivedView_eq)
  have "sorted_wrt (\<lambda>a b. compareNames d a b \<le> 0) (derivedView r f s d h)"
    unfolding v by (rule sorted_sortBy_compareNames)
  then have "d = asc \<longrightarrow> sorted_wrt (\<lambda>a b. name a \<le> name b) (derivedView r f s d h)"
    and "d = desc \<longrightarrow> sorted_wrt (\<lambda>a b. name b \<le> name a) (derivedView r f s d h)"
    by (auto simp: compareNames_asc compareNames_desc)
  then show ?thesis
    by (simp add: v mset_sortBy filter_name_sortBy)
qed

theorem view_is_sorted_survivors_witness:
  "(0::nat) < length [[rick, morty, beth, birdperson]] \<and>
   mset (derivedView 0 ''Alive'' ''S'' asc [[rick, morty, beth, birdperson]]) = mset [rick, morty] \<and>
   sorted_wrt (\<lambda>a b. name a \<le> name b)
     (derivedView 0 ''Alive'' ''S'' asc [[rick, morty, beth, birdperson]]) \<and>
   sorted_wrt (\<lambda>a b. name b \<le> name a)
     (derivedView 0 ''All'' [] desc [[rick, morty, beth, birdperson]])"
  using view_is_sorted_survivors [of 0 "[[rick, morty, beth, birdperson]]" "''Alive''" "''S''" asc]
    view_is_sorted_survivors [of 0 "[[rick, morty, beth, birdperson]]" "''All''" "[]" desc]
    example_survivors
  by simp

text \<open>
  C2. The claim is that the pipeline never changes the collection it receives. With the
  status filter "All" and an empty search term no filter step runs, \<open>filtered\<close> is still
  the array received, and \<open>sort\<close> reorders that array: the collection [Rick Sanchez,
  Morty Smith, Beth Smith] held at reference 0 is [Beth Smith, Morty Smith, Rick
  Sanchez] after the call.
\<close>

theorem source_sorted_in_place:
  "[[rick, morty, beth]] ! 0 = [rick, morty, beth] \<and>
   snd (getFilteredAndSortedCharacters 0 ''All'' [] asc [[rick, morty, beth]]) ! 0 =
     [beth, morty, rick] \<and>
   [beth, morty, rick] \<noteq> [rick, morty, beth]"
  by code_simp

text \<open>
  C9. The pipeline is idempotent: run again, with the same status filter, search term
  and sort direction, on the array it returned, it yields the same sequence as the first
  run.
\<close>

theorem pipeline_idempotent:
  assumes "r < length h"
    and "getFilteredAndSortedCharacters r f s d h = (r1, h1)"
  shows "derivedView r1 f s d h1 = derivedView r f s d h"
proof -
  have r1: "r1 < length h1"
    using pipeline_ref_valid [OF assms(1), of f s d] assms(2) by simp
  have once: "derivedView r f s d h = h1 ! r1"
    using assms(2) by (simp add: derivedView_def)
  have v: "h1 ! r1 = sortBy (compareNames d) (survivors f s (h ! r))"
    using derivedView_eq [OF assms(1), of f s d] once by simp
  have "survivors f s (h1 ! r1) = h1 ! r1"
    by (rule survivors_idem) (simp add: v set_sortBy)
  moreover have "sortBy (compareNames d) (h1 ! r1) = h1 ! r1"
    unfolding v by (rule sortBy_sorted_id) (rule sorted_sortBy_compareNames)
  ultimately show ?thesis
    using derivedView_eq [OF r1, of f s d] once by simp
qed

theorem pipeline_idempotent_witness:
  "(0::nat) < length [[rick, morty, beth, birdperson]] \<and>
   getFilteredAndSortedCharacters 0 ''Alive'' ''S'' asc [[rick, morty, beth, birdperson]] =
     (2, [[rick, morty, beth, birdperson], [rick, morty], [morty, rick]]) \<and>
   derivedView 2 ''Alive'' ''S'' asc [[rick, morty, beth, birdperson], [rick, morty], [morty, rick]] =
     derivedView 0 ''Alive'' ''S'' asc [[rick, morty, beth, birdperson]]"
  using pipeline_idempotent [of 0 "[[rick, morty, beth, birdperson]]" "''Alive''" "''S''" asc
      2 "[[rick, morty, beth, birdperson], [rick, morty], [morty, rick]]"]
    example_pipeline
  by simp

section \<open>Properties of the merge\<close>

lemma keys_Map_set:
  "map fst (Map_set k v m) = (if k \<in> fst ` set m then map fst m else map fst m @ [k])"
  by (induction m) (force split: if_splits)+

lemma set_Map_set:
  "distinct (map fst m) \<Longrightarrow> set (Map_set k v m) = {e \<in> set m. fst e \<noteq> k} \<union> {(k, v)}"
  by (induction m) (force simp: image_iff split: if_splits)+

lemma Map_new_snoc: "Map_new (es @ [(k, v)]) = Map_set k v (Map_new es)"
  by (simp add: Map_new_def)

lemma firstOccurrences_snoc:
  "firstOccurrences (xs @ [x]) =
     (if x \<in> set xs then firstOccurrences xs else firstOccurrences xs @ [x])"
  by (simp add: firstOccurrences_def)

lemma set_firstOccurrences: "set (firstOccurrences xs) = set xs"
  by (simp add: firstOccurrences_def)

lemma distinct_firstOccurrences: "distinct (firstOccurrences xs)"
  by (simp add: firstOccurrences_def)

lemma firstOccurrences_distinct: "distinct xs \<Longrightarrow> firstOccurrences xs = xs"
  by (simp add: firstOccurrences_def distinct_remdups_id)

lemma remdups_append_filter:
  "remdups (xs @ ys) = remdups (filter (\<lambda>x. x \<notin> set ys) xs) @ remdups ys"
  by (induction xs) auto

lemma firstOccurrences_append:
  "firstOccurrences (xs @ ys) =
     firstOccurrences xs @ firstOccurrences (filter (\<lambda>y. y \<notin> set xs) ys)"
  by (simp add: firstOccurrences_def remdups_append_filter rev_filter)

lemma keys_Map_new: "map fst (Map_new es) = firstOccurrences (map fst es)"
proof (induction es rule: rev_induct)
  case Nil
  then show ?case by (simp add: Map_new_def firstOccurrences_def)
next
  case (snoc e es)
  obtain k v where e: "e = (k, v)" by (cases e)
  have "fst ` set (Map_new es) = fst ` set es"
    using snoc by (metis set_firstOccurrences set_map)
  with snoc show ?case
    by (simp add: e Map_new_snoc keys_Map_set firstOccurrences_snoc)
qed

lemma distinct_keys_Map_new: "distinct (map fst (Map_new es))"
  by (simp add: keys_Map_new distinct_firstOccurrences)

lemma value_Map_new:
  "(k, v) \<in> set (Map_new es) \<Longrightarrow> v = last (map snd (filter (\<lambda>e. fst e = k) es))"
proof (induction es arbitrary: k v rule: rev_induct)
  case Nil
  then show ?case by (simp add: Map_new_def)
next
  case (snoc e es)
  obtain k' v' where e: "e = (k', v')" by (cases e)
  have "set (Map_new (es @ [e])) = {x \<in> set (Map_new es). fst x \<noteq> k'} \<union> {(k', v')}"
    by (simp add: e Map_new_snoc set_Map_set distinct_keys_Map_new)
  with snoc.prems have "(k, v) = (k', v') \<or> (k \<noteq> k' \<and> (k, v) \<in> set (Map_new es))"
    by auto
  then show ?case
  proof
    assume "(k, v) = (k', v')"
    then show ?thesis by (simp add: e)
  next
    assume other: "k \<noteq> k' \<and> (k, v) \<in> set (Map_new es)"
    then have "v = last (map snd (filter (\<lambda>e. fst e = k) es))"
      using snoc.IH [of k v] by simp
    with other show ?thesis by (auto simp: e)
  qed
qed

lemma uniqueCharacters_eq:
  "uniqueCharacters cs = map (lastWithId cs) (firstOccurrences (map id' cs))"
proof -
  let ?es = "map (\<lambda>character. (id' character, character)) cs"
  have val: "snd e = lastWithId cs (fst e)" if "e \<in> set (Map_new ?es)" for e
  proof -
    have "(fst e, snd e) \<in> set (Map_new ?es)" using that by simp
    from value_Map_new [OF this] show ?thesis
      by (simp add: lastWithId_def filter_map o_def last_map)
  qed
  have "map snd (Map_new ?es) = map (\<lambda>e. lastWithId cs (fst e)) (Map_new ?es)"
    by (rule map_cong) (simp_all add: val)
  also have "\<dots> = map (lastWithId cs) (map fst (Map_new ?es))"
    by simp
  also have "map fst (Map_new ?es) = firstOccurrences (map id' cs)"
    by (simp add: keys_Map_new o_def)
  finally show ?thesis
    by (simp add: uniqueCharacters_def Map_values_def)
qed

lemma lastWithId_in:
  assumes "i \<in> id' ` set cs"
  shows "lastWithId cs i \<in> set cs \<and> id' (lastWithId cs i) = i"
proof -
  have ne: "filter (\<lambda>c. id' c = i) cs \<noteq> []"
    using assms by (auto simp: filter_empty_conv)
  from last_in_set [OF ne] show ?thesis
    by (simp add: lastWithId_def)
qed

lemma lastWithId_append:
  "lastWithId (xs @ ys) i =
     (if i \<in> id' ` set ys then lastWithId ys i else lastWithId xs i)"
proof (cases "i \<in> id' ` set ys")
  case True
  then have "filter (\<lambda>c. id' c = i) ys \<noteq> []"
    by (auto simp: filter_empty_conv)
  with True show ?thesis by (simp add: lastWithId_def)
next
  case False
  then have "filter (\<lambda>c. id' c = i) ys = []"
    by (auto simp: filter_empty_conv)
  with False show ?thesis by (simp add: lastWithId_def)
qed

lemma lastWithId_distinct:
  "distinct (map id' cs) \<Longrightarrow> c \<in> set cs \<Longrightarrow> lastWithId cs (id' c) = c"
proof (induction cs)
  case Nil
  then show ?case by simp
next
  case (Cons x xs)
  show ?case
  proof (cases "c \<in> set xs")
    case True
    with Cons.prems have "id' x \<noteq> id' c" by auto
    moreover have "lastWithId xs (id' c) = c" using Cons True by simp
    moreover have "lastWithId (x # xs) (id' c) = lastWithId ([x] @ xs) (id' c)" by simp
    ultimately show ?thesis using True unfolding lastWithId_append by simp
  next
    case False
    with Cons.prems have c: "c = x" by simp
    from Cons.prems have "id' x \<notin> id' ` set xs" by simp
    then have "\<forall>y \<in> set xs. id' y \<noteq> id' x" by (metis imageI)
    then have "filter (\<lambda>y. id' y = id' c) xs = []"
      by (simp add: filter_empty_conv c)
    then show ?thesis by (simp add: lastWithId_def c)
  qed
qed

lemma ids_uniqueCharacters:
  "map id' (uniqueCharacters cs) = firstOccurrences (map id' cs)"
proof -
  have "map id' (uniqueCharacters cs) =
          map (\<lambda>i. id' (lastWithId cs i)) (firstOccurrences (map id' cs))"
    by (simp add: uniqueCharacters_eq o_def)
  also have "\<dots> = map (\<lambda>i. i) (firstOccurrences (map id' cs))"
    by (rule map_cong) (simp_all add: set_firstOccurrences lastWithId_in)
  finally show ?thesis by simp
qed

lemma distinct_uniqueCharacters: "distinct (map id' (uniqueCharacters cs))"
  by (simp add: ids_uniqueCharacters distinct_firstOccurrences)

lemma member_uniqueCharacters:
  "c \<in> set (uniqueCharacters cs) \<Longrightarrow> c = lastWithId cs (id' c)"
  by (auto simp: uniqueCharacters_eq set_firstOccurrences lastWithId_in)

lemma set_ids_uniqueCharacters: "id' ` set (uniqueCharacters cs) = id' ` set cs"
  using ids_uniqueCharacters [of cs] set_firstOccurrences [of "map id' cs"]
  by (metis set_map)

lemma example_merge:
  "uniqueCharacters ([rick, morty] @ [rick_edited, beth]) = [rick_edited, morty, beth]"
  by code_simp

section \<open>Properties of the component\<close>

lemma fetchSettled_Results:
  assumes "requests w = req # rest" and "results \<noteq> []"
  shows "fetchSettled (Results results) w =
           w\<lparr>requests := rest,
             store := store w @ [uniqueCharacters (store w ! req_allCharacters req @ results)],
             allCharacters := length (store w),
             filteredCharacters := length (store w),
             page := page w + 1, loadingMore := False\<rparr>"
  using assms by (simp add: fetchSettled_def loadMoreCharacters_resume_def Let_def)

lemma run_Nil: "run [] w = w"
  by (simp add: run_def)

lemma run_Cons: "run (e # es) w = run es (step e w)"
  by (simp add: run_def)



lemma tick_single: "tick [e] w = step e w"
  by (simp add: tick_def step_def)







text \<open>
  When every event is followed by a render, at most one fetch is outstanding, and one is
  outstanding exactly while the in-flight flag is set.
\<close>

lemma inv_step:
  assumes "if loadingMore w then length (requests w) = 1 else requests w = []"
  shows "if loadingMore (step e w) then length (requests (step e w)) = 1 else requests (step e w) = []"
proof (cases e)
  case (FetchSettled outcome)
  with assms show ?thesis
    by (cases outcome; cases "requests w")
      (auto simp: step_def fetchSettled_def loadMoreCharacters_resume_def Let_def split: if_splits)
next
  case (AlertPressed b)
  with assms show ?thesis
    by (cases b; cases "alerts w") (simp_all add: step_def Alert_press_def)
next
  case EffectRun
  with assms show ?thesis
    by (simp add: step_def useEffect_filter_def case_prod_beta)
qed (use assms in \<open>simp_all add: step_def loadMoreCharacters_def openModal_def closeModal_def
    handleDelete_def handleEdit_def saveEdit_def editModal_onClose_def\<close>)

lemma inv_run:
  assumes "if loadingMore w then length (requests w) = 1 else requests w = []"
  shows "if loadingMore (run es w) then length (requests (run es w)) = 1 else requests (run es w) = []"
  using assms
proof (induction es arbitrary: w)
  case Nil
  then show ?case by (simp add: run_Nil)
next
  case (Cons e es)
  from inv_step [OF Cons.prems, of e] have
    "if loadingMore (run es (step e w)) then length (requests (run es (step e w))) = 1
     else requests (run es (step e w)) = []"
    by (rule Cons.IH)
  then show ?case by (simp add: run_Cons)
qed

lemma one_fetch_in_flight_when_rendered:
  "length (requests (run es (initial st f so cs acs h))) \<le> 1 \<and>
   (requests (run es (initial st f so cs acs h)) \<noteq> [] \<longleftrightarrow>
      loadingMore (run es (initial st f so cs acs h)))"
proof -
  have "if loadingMore (initial st f so cs acs h)
        then length (requests (initial st f so cs acs h)) = 1
        else requests (initial st f so cs acs h) = []"
    by (simp add: initial_def)
  from inv_run [OF this, of es] show ?thesis
    by (auto split: if_splits)
qed

text \<open>What the guard does give: a handler of a render that saw the in-flight flag set, or
  has-more false, changes nothing.\<close>

lemma loadMore_guard_of_render:
  "loadingMore r \<or> \<not> hasMore r \<Longrightarrow> loadMoreCharacters r w = w"
  by (simp add: loadMoreCharacters_def)

lemma exampleWorld_cells:
  "\<not> loadingMore exampleWorld" "hasMore exampleWorld" "requests exampleWorld = []"
  "page exampleWorld = 1" "allCharacters exampleWorld = 1" "characters exampleWorld = 0"
  "filteredCharacters exampleWorld = 2" "alerts exampleWorld = []"
  "store exampleWorld = [[rick, morty], [rick, morty], []]"
  "selectedCharacter exampleWorld = None" "\<not> isModalVisible exampleWorld"
  "\<not> isEditModalVisible exampleWorld" "console exampleWorld = []"
  by (simp_all add: exampleWorld_def initial_def)

lemma exampleWorld_loadMore:
  "step EndReached exampleWorld =
     exampleWorld\<lparr>loadingMore := True, requests := [\<lparr>req_page = 1, req_allCharacters = 1\<rparr>]\<rparr>"
  by (simp add: step_def loadMoreCharacters_def exampleWorld_cells)

lemma example_ids: "id' rick = 1" "id' morty = 2" "id' beth = 4" "id' rick_edited = 1"
  "rick \<noteq> morty" "rick \<noteq> rick_edited" "morty \<noteq> rick_edited" "morty \<noteq> beth" "beth \<noteq> morty"
  by (simp_all add: rick_def morty_def beth_def rick_edited_def)

text \<open>
  The dialog's button reads the array when it is pressed: Morty is deleted from an array
  that the effect has reordered, in place, after the dialog was opened.
\<close>

lemma example_delete_after_sort:
  "store (run [CardPressed morty, ModalDelete, PropsChanged [] ''All'' desc 0, EffectRun,
               AlertPressed Excluir]
            (initial [] ''All'' asc 0 1 [[beth, morty, rick], []])) !
     characters (run [CardPressed morty, ModalDelete, PropsChanged [] ''All'' desc 0, EffectRun,
               AlertPressed Excluir]
            (initial [] ''All'' asc 0 1 [[beth, morty, rick], []])) = [rick, beth]"
  by code_simp

subsection \<open>Claims about pagination\<close>

text \<open>
  C3. After a fetch has delivered a non-empty page, the collection published to the hook
  and to the view holds every identifier at most once; it holds the identifiers of the
  existing collection and of the page; and a record whose identifier occurs in the page
  is the last record of the page with that identifier, so the fetched value wins over
  the existing one. The existing collection is the array the suspended call refers to.
\<close>

theorem merge_unique_last_wins:
  assumes "requests w = req # rest" and "results \<noteq> []"
  shows "let existing = store w ! req_allCharacters req;
             w' = fetchSettled (Results results) w;
             published = store w' ! allCharacters w' in
           store w' ! filteredCharacters w' = published \<and>
           distinct (map id' published) \<and>
           id' ` set published = id' ` set existing \<union> id' ` set results \<and>
           (\<forall>c \<in> set published.
              c = (if id' c \<in> id' ` set results then lastWithId results (id' c)
                   else lastWithId existing (id' c)))"
proof -
  let ?e = "store w ! req_allCharacters req"
  let ?w = "fetchSettled (Results results) w"
  let ?u = "uniqueCharacters (?e @ results)"
  have pub: "store ?w ! allCharacters ?w = ?u"
    and view: "store ?w ! filteredCharacters ?w = ?u"
    by (simp_all add: fetchSettled_Results [OF assms])
  have "distinct (map id' ?u)" by (rule distinct_uniqueCharacters)
  moreover have "id' ` set ?u = id' ` set ?e \<union> id' ` set results"
    by (simp add: set_ids_uniqueCharacters image_Un)
  moreover have "\<forall>c \<in> set ?u.
      c = (if id' c \<in> id' ` set results then lastWithId results (id' c)
           else lastWithId ?e (id' c))"
    using member_uniqueCharacters [of _ "?e @ results"]
    by (simp add: lastWithId_append)
  ultimately show ?thesis by (simp add: pub view Let_def)
qed

theorem merge_unique_last_wins_witness:
  "requests (step EndReached exampleWorld) = [\<lparr>req_page = 1, req_allCharacters = 1\<rparr>] \<and>
   [rick_edited, beth] \<noteq> [] \<and>
   store (step EndReached exampleWorld) ! 1 = [rick, morty] \<and>
   store (fetchSettled (Results [rick_edited, beth]) (step EndReached exampleWorld)) !
     allCharacters (fetchSettled (Results [rick_edited, beth]) (step EndReached exampleWorld)) =
     [rick_edited, morty, beth] \<and>
   store (fetchSettled (Results [rick_edited, beth]) (step EndReached exampleWorld)) !
     filteredCharacters (fetchSettled (Results [rick_edited, beth]) (step EndReached exampleWorld)) =
     [rick_edited, morty, beth] \<and>
   distinct (map id' [rick_edited, morty, beth])"
  using merge_unique_last_wins [of "step EndReached exampleWorld"
      "\<lparr>req_page = 1, req_allCharacters = 1\<rparr>" "[]" "[rick_edited, beth]"]
    example_merge [simplified]
  by (simp add: exampleWorld_loadMore exampleWorld_cells fetchSettled_def
      loadMoreCharacters_resume_def Let_def example_ids)

text \<open>
  C4. When the fetch fails, the component writes one line to the console and clears the
  in-flight flag, and nothing else changes: the page cursor, the has-more flag, the
  collections and the memory are as before. The in-flight flag is cleared whatever the
  fetch delivers: a page, an empty page or a failure.
\<close>

theorem fetch_failure_only_logs:
  assumes "requests w = req # rest"
  shows "fetchSettled Failed w =
           w\<lparr>requests := rest,
             console := console w @ [''Erro ao carregar mais personagens:''],
             loadingMore := False\<rparr> \<and>
         page (fetchSettled Failed w) = page w \<and>
         hasMore (fetchSettled Failed w) = hasMore w \<and>
         store (fetchSettled Failed w) = store w \<and>
         allCharacters (fetchSettled Failed w) = allCharacters w \<and>
         filteredCharacters (fetchSettled Failed w) = filteredCharacters w \<and>
         characters (fetchSettled Failed w) = characters w \<and>
         (\<forall>outcome. \<not> loadingMore (fetchSettled outcome w))"
proof -
  have "\<not> loadingMore (fetchSettled outcome w)" for outcome
    using assms
    by (cases outcome) (simp_all add: fetchSettled_def loadMoreCharacters_resume_def Let_def)
  then show ?thesis
    using assms by (simp add: fetchSettled_def loadMoreCharacters_resume_def)
qed

theorem fetch_failure_only_logs_witness:
  "requests (step EndReached exampleWorld) = [\<lparr>req_page = 1, req_allCharacters = 1\<rparr>] \<and>
   page (fetchSettled Failed (step EndReached exampleWorld)) = 1 \<and>
   hasMore (fetchSettled Failed (step EndReached exampleWorld)) \<and>
   store (fetchSettled Failed (step EndReached exampleWorld)) !
     allCharacters (fetchSettled Failed (step EndReached exampleWorld)) = [rick, morty] \<and>
   console (fetchSettled Failed (step EndReached exampleWorld)) =
     [''Erro ao carregar mais personagens:''] \<and>
   \<not> loadingMore (fetchSettled Failed (step EndReached exampleWorld)) \<and>
   \<not> loadingMore (fetchSettled (Results []) (step EndReached exampleWorld)) \<and>
   \<not> loadingMore (fetchSettled (Results [beth]) (step EndReached exampleWorld))"
  using fetch_failure_only_logs [of "step EndReached exampleWorld"
      "\<lparr>req_page = 1, req_allCharacters = 1\<rparr>" "[]"]
  by (simp add: exampleWorld_loadMore) (simp add: exampleWorld_cells)

text \<open>
  C5. The claim is that a call made while a fetch is in flight does nothing. The guard
  tests the \<open>loadingMore\<close> of the render that made the handler. When the list reports
  its end twice before the component has rendered again, both calls are calls of the
  same handler and both see the flag unset, although the first has set it: two requests
  for page 1 are outstanding, and once both have delivered a page the cursor is 3.
\<close>

theorem second_call_passes_guard:
  "\<not> loadingMore exampleWorld \<and> hasMore exampleWorld \<and> requests exampleWorld = [] \<and>
   loadingMore (tick [EndReached] exampleWorld) \<and>
   requests (tick [EndReached] exampleWorld) = [\<lparr>req_page = 1, req_allCharacters = 1\<rparr>] \<and>
   requests (tick [EndReached, EndReached] exampleWorld) =
     [\<lparr>req_page = 1, req_allCharacters = 1\<rparr>, \<lparr>req_page = 1, req_allCharacters = 1\<rparr>] \<and>
   page (runTicks [[EndReached, EndReached], [FetchSettled (Results [beth])],
                   [FetchSettled (Results [beth])]] exampleWorld) = 3"
  by (simp add: runTicks_def tick_def loadMoreCharacters_def fetchSettled_def
      loadMoreCharacters_resume_def Let_def exampleWorld_cells)



section \<open>Claims about the overlays\<close>

text \<open>
  The claim C7 says that \<open>saveEdit\<close> clears the selection and leaves the state machine
  in \<open>Idle\<close>. \<open>saveEdit\<close> only hides the edit overlay: with Rick selected and the edit
  overlay open, Rick is still selected after saving.
\<close>

theorem saveEdit_keeps_selection:
  "EditOpen (handleEdit rick (openModal rick exampleWorld)) \<and>
   selectedCharacter
     (saveEdit (handleEdit rick (openModal rick exampleWorld)) rick_edited
        (handleEdit rick (openModal rick exampleWorld))) = Some rick \<and>
   \<not> Idle
     (saveEdit (handleEdit rick (openModal rick exampleWorld)) rick_edited
        (handleEdit rick (openModal rick exampleWorld)))"
  by (simp add: EditOpen_def Idle_def saveEdit_def handleEdit_def openModal_def)

text \<open>
  C7, amended. \<open>saveEdit\<close>, invoked in the \<open>EditOpen\<close> state, puts the updated record at
  every position of the owned collection whose record has the identifier of the update,
  and leaves every other position as it was; afterwards neither overlay is visible; the
  selection is what it was before, so it is not cleared.
\<close>

theorem saveEdit_replaces_and_closes:
  assumes "EditOpen w"
  shows "let old = store w ! characters w;
             w' = saveEdit w u w;
             new = store w' ! characters w' in
           length new = length old \<and>
           (\<forall>i < length old. new ! i = (if id' (old ! i) = id' u then u else old ! i)) \<and>
           \<not> isEditModalVisible w' \<and>
           \<not> isModalVisible w' \<and>
           selectedCharacter w' = selectedCharacter w \<and>
           selectedCharacter w' \<noteq> None"
  using assms by (simp add: EditOpen_def saveEdit_def Let_def)

theorem saveEdit_replaces_and_closes_witness:
  "EditOpen (handleEdit rick (openModal rick exampleWorld)) \<and>
   store (handleEdit rick (openModal rick exampleWorld)) !
     characters (handleEdit rick (openModal rick exampleWorld)) = [rick, morty] \<and>
   store (saveEdit (handleEdit rick (openModal rick exampleWorld)) rick_edited
            (handleEdit rick (openModal rick exampleWorld))) !
     characters (saveEdit (handleEdit rick (openModal rick exampleWorld)) rick_edited
            (handleEdit rick (openModal rick exampleWorld))) = [rick_edited, morty] \<and>
   \<not> isEditModalVisible (saveEdit (handleEdit rick (openModal rick exampleWorld)) rick_edited
            (handleEdit rick (openModal rick exampleWorld))) \<and>
   \<not> isModalVisible (saveEdit (handleEdit rick (openModal rick exampleWorld)) rick_edited
            (handleEdit rick (openModal rick exampleWorld)))"
  using saveEdit_replaces_and_closes [of "handleEdit rick (openModal rick exampleWorld)" rick_edited]
  by (simp add: EditOpen_def saveEdit_def handleEdit_def openModal_def exampleWorld_cells
      example_ids)

text \<open>
  The claim C8 says that nothing changes when the confirmation is cancelled.
  \<open>handleDelete\<close> hides the detail overlay as soon as the dialog is shown, so after
  "Cancelar" the detail overlay that was open is closed.
\<close>

theorem cancel_hides_detail:
  "DetailOpen (openModal rick exampleWorld) \<and>
   isModalVisible (openModal rick exampleWorld) \<and>
   \<not> isModalVisible
       (Alert_press Cancelar
          (handleDelete (openModal rick exampleWorld) (Some 1) (openModal rick exampleWorld))) \<and>
   Alert_press Cancelar
     (handleDelete (openModal rick exampleWorld) (Some 1) (openModal rick exampleWorld)) \<noteq>
     openModal rick exampleWorld"
  by (auto simp: DetailOpen_def Alert_press_def handleDelete_def openModal_def exampleWorld_def
      initial_def)

text \<open>
  C8, amended. \<open>handleDelete\<close> shows the confirmation dialog and hides the detail overlay
  at once. When "Excluir" is pressed, the owned collection becomes the records whose
  identifier differs from the given one, in their order, so no record with that
  identifier remains; nothing else changes, and the selection is kept. When "Cancelar"
  is pressed, the only difference to the state before the call is that the detail
  overlay is hidden.
\<close>

theorem delete_confirm_and_cancel:
  assumes "alerts w = []"
  shows "handleDelete w (Some i) w =
           w\<lparr>alerts := [\<lparr>alert_characters = characters w, alert_id = Some i\<rparr>],
             isModalVisible := False\<rparr> \<and>
         Alert_press Excluir (handleDelete w (Some i) w) =
           w\<lparr>store := store w @ [filter (\<lambda>c. id' c \<noteq> i) (store w ! characters w)],
             characters := length (store w), isModalVisible := False\<rparr> \<and>
         store (Alert_press Excluir (handleDelete w (Some i) w)) !
           characters (Alert_press Excluir (handleDelete w (Some i) w)) =
             filter (\<lambda>c. id' c \<noteq> i) (store w ! characters w) \<and>
         i \<notin> id' ` set (store (Alert_press Excluir (handleDelete w (Some i) w)) !
                          characters (Alert_press Excluir (handleDelete w (Some i) w))) \<and>
         Alert_press Cancelar (handleDelete w (Some i) w) = w\<lparr>isModalVisible := False\<rparr>"
  using assms by (auto simp: handleDelete_def Alert_press_def)

theorem delete_confirm_and_cancel_witness:
  "alerts (openModal rick exampleWorld) = [] \<and>
   store (Alert_press Excluir
            (handleDelete (openModal rick exampleWorld) (Some 1) (openModal rick exampleWorld))) !
     characters (Alert_press Excluir
            (handleDelete (openModal rick exampleWorld) (Some 1) (openModal rick exampleWorld))) =
     [morty] \<and>
   \<not> isModalVisible (Alert_press Excluir
            (handleDelete (openModal rick exampleWorld) (Some 1) (openModal rick exampleWorld))) \<and>
   store (Alert_press Cancelar
            (handleDelete (openModal rick exampleWorld) (Some 1) (openModal rick exampleWorld))) !
     characters (Alert_press Cancelar
            (handleDelete (openModal rick exampleWorld) (Some 1) (openModal rick exampleWorld))) =
     [rick, morty]"
  using delete_confirm_and_cancel [of "openModal rick exampleWorld" 1]
  by (simp add: openModal_def handleDelete_def Alert_press_def exampleWorld_cells example_ids)

section \<open>Claims about positions in the merge\<close>

text \<open>
  C10. The merge preserves positions. The identifiers of a collection are unique, and
  every merged collection has unique identifiers again. For such an existing collection
  and every fetched page, each existing position keeps its identifier, holding the last
  fetched record with that identifier when the page has one and the existing record
  otherwise, and the identifiers that were not present follow after all existing
  records, in the order of their first occurrence in the page; when the page does not
  repeat an identifier these are the new records of the page themselves, in page order.
\<close>

theorem merge_keeps_positions:
  assumes d: "distinct (map id' existing)"
  shows "length existing \<le> length (uniqueCharacters (existing @ fetched)) \<and>
         map id' (take (length existing) (uniqueCharacters (existing @ fetched))) =
           map id' existing \<and>
         (\<forall>i < length existing.
            uniqueCharacters (existing @ fetched) ! i =
              (if id' (existing ! i) \<in> id' ` set fetched
               then lastWithId fetched (id' (existing ! i)) else existing ! i)) \<and>
         map id' (drop (length existing) (uniqueCharacters (existing @ fetched))) =
           firstOccurrences (filter (\<lambda>i. i \<notin> id' ` set existing) (map id' fetched)) \<and>
         (distinct (map id' fetched) \<longrightarrow>
            drop (length existing) (uniqueCharacters (existing @ fetched)) =
              filter (\<lambda>c. id' c \<notin> id' ` set existing) fetched)"
proof -
  let ?new = "firstOccurrences (filter (\<lambda>i. i \<notin> id' ` set existing) (map id' fetched))"
  let ?L = "lastWithId (existing @ fetched)"
  let ?m = "uniqueCharacters (existing @ fetched)"
  have keys: "firstOccurrences (map id' (existing @ fetched)) = map id' existing @ ?new"
    using d by (simp add: firstOccurrences_append firstOccurrences_distinct)
  have u: "?m = map ?L (map id' existing) @ map ?L ?new"
    unfolding uniqueCharacters_eq keys by simp
  have len: "length existing \<le> length ?m"
    by (simp add: u)
  have ids: "map id' ?m = map id' existing @ ?new"
    using ids_uniqueCharacters [of "existing @ fetched"] keys by simp
  have fore: "map id' (take (length existing) ?m) = map id' existing"
    using ids by (metis append_eq_conv_conj length_map take_map)
  have rear: "map id' (drop (length existing) ?m) = ?new"
    using ids by (metis append_eq_conv_conj length_map drop_map)
  have pos: "\<forall>i < length existing.
         ?m ! i = (if id' (existing ! i) \<in> id' ` set fetched
                   then lastWithId fetched (id' (existing ! i)) else existing ! i)"
  proof (intro allI impI)
    fix i assume i: "i < length existing"
    then have "?m ! i = ?L (id' (existing ! i))"
      by (simp add: u nth_append)
    then show "?m ! i = (if id' (existing ! i) \<in> id' ` set fetched
                   then lastWithId fetched (id' (existing ! i)) else existing ! i)"
      using i d by (simp add: lastWithId_append lastWithId_distinct)
  qed
  have fresh: "drop (length existing) ?m = filter (\<lambda>c. id' c \<notin> id' ` set existing) fetched"
    if df: "distinct (map id' fetched)"
  proof -
    let ?F = "filter (\<lambda>c. id' c \<notin> id' ` set existing) fetched"
    have "filter (\<lambda>i. i \<notin> id' ` set existing) (map id' fetched) = map id' ?F"
      by (simp add: filter_map o_def)
    moreover have "distinct (map id' ?F)"
      using df by (simp add: distinct_map_filter)
    ultimately have new: "?new = map id' ?F"
      by (simp add: firstOccurrences_distinct)
    have "drop (length existing) ?m = map ?L ?new"
      by (simp add: u)
    also have "\<dots> = map (\<lambda>c. ?L (id' c)) ?F"
      by (simp add: new o_def)
    also have "\<dots> = map (\<lambda>c. c) ?F"
    proof (rule map_cong)
      fix c assume "c \<in> set ?F"
      then have c: "c \<in> set fetched" by simp
      then have "?L (id' c) = lastWithId fetched (id' c)"
        by (simp add: lastWithId_append)
      also have "\<dots> = c" using df c by (rule lastWithId_distinct)
      finally show "?L (id' c) = c" .
    qed simp
    finally show ?thesis by simp
  qed
  from len fore pos rear fresh show ?thesis by blast
qed

theorem merge_keeps_positions_witness:
  "distinct (map id' [rick, morty]) \<and> distinct (map id' [rick_edited, beth]) \<and>
   uniqueCharacters ([rick, morty] @ [rick_edited, beth]) = [rick_edited, morty, beth] \<and>
   uniqueCharacters ([rick, morty] @ [rick_edited, beth]) ! 0 = lastWithId [rick_edited, beth] 1 \<and>
   uniqueCharacters ([rick, morty] @ [rick_edited, beth]) ! 1 = morty \<and>
   drop 2 (uniqueCharacters ([rick, morty] @ [rick_edited, beth])) = [beth]"
  using merge_keeps_positions [of "[rick, morty]" "[rick_edited, beth]"]
  by (simp add: example_merge [simplified] example_ids lastWithId_def firstOccurrences_def)

end
